theory Spec2Isabelle
  imports Complex_Main
begin

section \<open>Data model of \<^verbatim>\<open>src/App.tsx\<close>\<close>

text \<open>
  \<^verbatim>\<open>interface Point { x: number; y: number }\<close>. Coordinates are modelled as real
  numbers (the data model of the specification calls them real numbers); rounding of
  IEEE doubles and non-finite coordinates are outside this model.
\<close>

record Point =
  x :: real
  y :: real

text \<open>
  The values the order field can hold: \<^verbatim>\<open>parseInt(e.target.value)\<close> yields an
  integer-valued number or \<^verbatim>\<open>NaN\<close> (for an empty or non-numeric text).
\<close>

datatype jsnum = NaN | Num int

text \<open>
  The four \<^verbatim>\<open>useState\<close> cells of the component \<^verbatim>\<open>App\<close>: \<^verbatim>\<open>t\<close>, \<^verbatim>\<open>order\<close>,
  \<^verbatim>\<open>points\<close> and \<^verbatim>\<open>draggingIndex\<close> (\<^verbatim>\<open>number | null\<close>; the only writer passes
  the index of a rendered circle, a natural number). The fields carry the suffix
  \<open>_st\<close> so that the parameters \<open>t\<close> and \<open>order\<close> of the functions below keep their
  names.
\<close>

record App =
  t_st :: real
  order_st :: jsnum
  points_st :: "Point list"
  draggingIndex_st :: "nat option"

text \<open>The initial values passed to \<^verbatim>\<open>useState\<close> (lines 11 to 14).\<close>

definition App_init :: App where
  "App_init = \<lparr>t_st = 0, order_st = Num 3, points_st = [], draggingIndex_st = None\<rparr>"

section \<open>Built-ins of the language that the code uses\<close>

text \<open>
  \<^verbatim>\<open>Math.min\<close> and \<^verbatim>\<open>Math.max\<close> on the values of the order field: the result is
  \<^verbatim>\<open>NaN\<close> as soon as one argument is \<^verbatim>\<open>NaN\<close>.
\<close>

fun Math_min :: "jsnum \<Rightarrow> jsnum \<Rightarrow> jsnum" where
  "Math_min (Num a) (Num b) = Num (min a b)"
| "Math_min _ _ = NaN"

fun Math_max :: "jsnum \<Rightarrow> jsnum \<Rightarrow> jsnum" where
  "Math_max (Num a) (Num b) = Num (max a b)"
| "Math_max _ _ = NaN"

text \<open>
  \<^verbatim>\<open>array.map((p, i) => f(p, i))\<close>: the callback receives each element with its
  index; the result has the length of the array.
\<close>

definition Array_map :: "('a \<Rightarrow> nat \<Rightarrow> 'b) \<Rightarrow> 'a list \<Rightarrow> 'b list" where
  "Array_map f arr = map (\<lambda>(p, i). f p i) (zip arr [0..<length arr])"

section \<open>Initialisation of the control points (lines 18 to 28)\<close>

text \<open>
  \<^verbatim>\<open>const safeOrder = Math.max(1, Math.min(100, order))\<close> (line 20).
\<close>

definition safeOrder :: "jsnum \<Rightarrow> jsnum" where
  "safeOrder order = Math_max (Num 1) (Math_min (Num 100) order)"

text \<open>
  The body of the effect that React runs after the first render and after every render
  in which \<^verbatim>\<open>order\<close> has changed. \<^verbatim>\<open>Array.from({ length: safeOrder + 1 }, f)\<close>
  calls \<open>f\<close> on the indices below the length; for \<^verbatim>\<open>safeOrder = NaN\<close> the length
  \<^verbatim>\<open>NaN + 1 = NaN\<close> is read as 0, the callback never runs and the array is empty.
  The guard \<^verbatim>\<open>newPoints.length > 0\<close> of line 25 then keeps the old points.
\<close>

definition useEffect_order :: "App \<Rightarrow> App" where
  "useEffect_order s =
     (let newPoints =
        (case safeOrder (order_st s) of
           NaN \<Rightarrow> []
         | Num n \<Rightarrow>
             map (\<lambda>i. \<lparr>x = 50 + (real i * 700) / real_of_int n,
                        y = 200 - sin ((real i * pi) / real_of_int n) * 150\<rparr>)
                 [0..<nat (n + 1)])
      in if length newPoints > 0 then s\<lparr>points_st := newPoints\<rparr> else s)"

text \<open>
  The order field (line 206): \<^verbatim>\<open>onChange={(e) => setOrder(parseInt(e.target.value))}\<close>.
  \<open>setOrder\<close> is the state setter, here applied to the value of \<^verbatim>\<open>parseInt\<close>;
  the effect above runs on the state it leaves.
\<close>

definition setOrder :: "App \<Rightarrow> jsnum \<Rightarrow> App" where
  "setOrder s newOrder = s\<lparr>order_st := newOrder\<rparr>"

section \<open>De Casteljau evaluation (lines 31 to 43)\<close>

text \<open>
  The \<^verbatim>\<open>for\<close> loop of lines 34 to 40: \<open>i\<close> runs from 0 while
  \<^verbatim>\<open>i < controlPoints.length - 1\<close>, and each round pushes one interpolated point.
  For the empty array the bound is \<open>-1\<close> in the source and \<open>0\<close> here (subtraction
  on \<open>nat\<close> stops at 0): no round runs in either.
\<close>

definition calculateBezierPoint_newPoints :: "real \<Rightarrow> Point list \<Rightarrow> Point list" where
  "calculateBezierPoint_newPoints t controlPoints =
     foldl (\<lambda>newPoints i. newPoints @
              [\<lparr>x = (1 - t) * x (controlPoints ! i) + t * x (controlPoints ! (i + 1)),
                y = (1 - t) * y (controlPoints ! i) + t * y (controlPoints ! (i + 1))\<rparr>])
           [] [0..<length controlPoints - 1]"

text \<open>
  The recursion itself. Its only base case is \<^verbatim>\<open>controlPoints.length === 1\<close>; a call
  that never reaches it does not return (in the browser: until the call stack
  overflows), which is the value \<open>None\<close> here.
\<close>

partial_function (option) calculateBezierPoint :: "real \<Rightarrow> Point list \<Rightarrow> Point option" where
  "calculateBezierPoint t controlPoints =
     (if length controlPoints = 1 then Some (controlPoints ! 0)
      else let newPoints = calculateBezierPoint_newPoints t controlPoints
           in calculateBezierPoint t newPoints)"

declare calculateBezierPoint.simps [code]

text \<open>
  The same recursion with a ghost counter: \<open>depth\<close> is the number of recursive calls
  made so far, and the result pairs the point with the depth at which the base case
  was reached.
\<close>

partial_function (option) calculateBezierPoint_depth ::
    "real \<Rightarrow> Point list \<Rightarrow> nat \<Rightarrow> (Point \<times> nat) option" where
  "calculateBezierPoint_depth t controlPoints depth =
     (if length controlPoints = 1 then Some (controlPoints ! 0, depth)
      else let newPoints = calculateBezierPoint_newPoints t controlPoints
           in calculateBezierPoint_depth t newPoints (depth + 1))"

declare calculateBezierPoint_depth.simps [code]

section \<open>The sampled curve (lines 46 to 52)\<close>

text \<open>
  \<^verbatim>\<open>Array.from({ length: 100 }, (_, i) => ...)\<close> calls the callback for
  \<open>i = 0, ..., 99\<close> in turn; the array exists once every call has returned
  (\<open>those\<close> is \<open>None\<close> as soon as one call is).
\<close>

definition curvePoints :: "App \<Rightarrow> Point list option" where
  "curvePoints s =
     (if length (points_st s) = 0 then Some []
      else those (map (\<lambda>i. let currentT = real i / 99
                            in calculateBezierPoint currentT (points_st s))
                      [0..<100]))"

section \<open>Dragging (lines 55 to 81)\<close>

definition handleMouseDown :: "App \<Rightarrow> nat \<Rightarrow> App" where
  "handleMouseDown s index = s\<lparr>draggingIndex_st := Some index\<rparr>"

text \<open>
  \<open>transformed\<close> is the pointer position in the coordinates of the drawing surface,
  \<^verbatim>\<open>point.matrixTransform(ctm.inverse())\<close>, computed by the browser; it is \<open>None\<close>
  when \<^verbatim>\<open>svgRef.current\<close> or \<^verbatim>\<open>getScreenCTM()\<close> is null, where the handler returns
  early.
\<close>

definition handleMouseMove :: "App \<Rightarrow> Point option \<Rightarrow> App" where
  "handleMouseMove s transformed =
     (case draggingIndex_st s of
        None \<Rightarrow> s
      | Some draggingIndex \<Rightarrow>
          (case transformed of
             None \<Rightarrow> s
           | Some svgPoint \<Rightarrow>
               let x' = max 0 (min 800 (x svgPoint));
                   y' = max 0 (min 400 (y svgPoint))
               in s\<lparr>points_st :=
                      Array_map (\<lambda>p i. if i = draggingIndex then \<lparr>x = x', y = y'\<rparr> else p)
                                (points_st s)\<rparr>))"

definition handleMouseUp :: "App \<Rightarrow> App" where
  "handleMouseUp s = s\<lparr>draggingIndex_st := None\<rparr>"

section \<open>The construction levels (lines 84 to 102)\<close>

text \<open>The \<^verbatim>\<open>for\<close> loop of lines 89 to 96, over \<^verbatim>\<open>currentPoints\<close>.\<close>

definition intermediatePoints_newPoints :: "real \<Rightarrow> Point list \<Rightarrow> Point list" where
  "intermediatePoints_newPoints t currentPoints =
     foldl (\<lambda>newPoints i. newPoints @
              [\<lparr>x = (1 - t) * x (currentPoints ! i) + t * x (currentPoints ! (i + 1)),
                y = (1 - t) * y (currentPoints ! i) + t * y (currentPoints ! (i + 1))\<rparr>])
           [] [0..<length currentPoints - 1]"

text \<open>
  The \<^verbatim>\<open>while (currentPoints.length > 1)\<close> loop of lines 88 to 99, as a function of
  the two variables it updates.
\<close>

function intermediatePoints_while ::
    "real \<Rightarrow> Point list \<Rightarrow> Point list list \<Rightarrow> Point list list" where
  "intermediatePoints_while t currentPoints allPoints =
     (if length currentPoints > 1 then
        let newPoints = intermediatePoints_newPoints t currentPoints
        in intermediatePoints_while t newPoints (allPoints @ [newPoints])
      else allPoints)"
  by pat_completeness auto
termination
proof (relation "measure (\<lambda>(t, currentPoints, allPoints). length currentPoints)")
  show "wf (measure (\<lambda>(t, currentPoints, allPoints). length currentPoints))"
    by simp
next
  fix t :: real and currentPoints newPoints :: "Point list" and allPoints :: "Point list list"
  assume more: "1 < length currentPoints"
    and np: "newPoints = intermediatePoints_newPoints t currentPoints"
  have push: "foldl (\<lambda>acc i. acc @ [f i]) acc js = acc @ map f js"
    for f :: "nat \<Rightarrow> Point" and acc js
    by (induction js arbitrary: acc) simp_all
  have "length newPoints = length currentPoints - 1"
    unfolding np intermediatePoints_newPoints_def push by simp
  with more show "((t, newPoints, allPoints @ [newPoints]), (t, currentPoints, allPoints))
      \<in> measure (\<lambda>(t, currentPoints, allPoints). length currentPoints)"
    by simp
qed

declare intermediatePoints_while.simps [simp del]

definition intermediatePoints :: "App \<Rightarrow> Point list list" where
  "intermediatePoints s =
     (let currentPoints = points_st s;
          allPoints = [currentPoints]
      in intermediatePoints_while (t_st s) currentPoints allPoints)"

section \<open>The states the application reaches\<close>

text \<open>The slider (lines 180 to 183): \<^verbatim>\<open>setT(newT)\<close>.\<close>

definition setT :: "App \<Rightarrow> real \<Rightarrow> App" where
  "setT s newT = s\<lparr>t_st := newT\<rparr>"

text \<open>
  The states from the effect of the first render on, closed under the events of the
  component: the slider, the order field, a run of the effect, and the three mouse
  handlers (\<^verbatim>\<open>handleMouseDown\<close> is attached to the rendered circles of level 0, so
  its index is one of a control point). The effect may run in any state here; React
  runs it only after \<^verbatim>\<open>order\<close> has changed, so this set contains every state the
  component is in from its first effect on.
\<close>

inductive reachable :: "App \<Rightarrow> bool" where
  mount: "reachable (useEffect_order App_init)"
| slider: "reachable s \<Longrightarrow> reachable (setT s newT)"
| order_field: "reachable s \<Longrightarrow> reachable (setOrder s newOrder)"
| effect: "reachable s \<Longrightarrow> reachable (useEffect_order s)"
| mouse_down: "reachable s \<Longrightarrow> index < length (points_st s) \<Longrightarrow>
     reachable (handleMouseDown s index)"
| mouse_move: "reachable s \<Longrightarrow> reachable (handleMouseMove s transformed)"
| mouse_up: "reachable s \<Longrightarrow> reachable (handleMouseUp s)"

text \<open>
  An entry in the order field, with what React does next. The effect of lines 18 to 28
  has the dependency list \<^verbatim>\<open>[order]\<close> (line 28): it runs again only after a render
  in which \<^verbatim>\<open>order\<close> differs from its value at the render before, compared with
  \<^verbatim>\<open>Object.is\<close> (for which \<^verbatim>\<open>NaN\<close> equals \<^verbatim>\<open>NaN\<close>). An entry of the value
  \<^verbatim>\<open>order\<close> already has leaves the state as it is, and no effect runs. (\<open>jsnum\<close>
  does not keep the sign of zero, which \<^verbatim>\<open>Object.is\<close> tells apart.)
\<close>

definition order_onChange :: "App \<Rightarrow> jsnum \<Rightarrow> App" where
  "order_onChange s newOrder =
     (let s' = setOrder s newOrder
      in if order_st s' = order_st s then s' else useEffect_order s')"

text \<open>
  The states in which the component rests between two events: from the effect of the
  first render on, each event applied with the effect it triggers.
\<close>

inductive settled :: "App \<Rightarrow> bool" where
  first_effect: "settled (useEffect_order App_init)"
| slider_moved: "settled s \<Longrightarrow> settled (setT s newT)"
| order_entered: "settled s \<Longrightarrow> settled (order_onChange s newOrder)"
| pressed: "settled s \<Longrightarrow> index < length (points_st s) \<Longrightarrow>
     settled (handleMouseDown s index)"
| moved: "settled s \<Longrightarrow> settled (handleMouseMove s transformed)"
| released: "settled s \<Longrightarrow> settled (handleMouseUp s)"

section \<open>Auxiliary facts\<close>

subsection \<open>The interpolation loops\<close>

lemma foldl_push_map: "foldl (\<lambda>acc i. acc @ [f i]) acc js = acc @ map f js"
  by (induction js arbitrary: acc) simp_all

lemma calculateBezierPoint_newPoints_map:
  "calculateBezierPoint_newPoints t cps =
     map (\<lambda>i. \<lparr>x = (1 - t) * x (cps ! i) + t * x (cps ! (i + 1)),
                y = (1 - t) * y (cps ! i) + t * y (cps ! (i + 1))\<rparr>)
         [0..<length cps - 1]"
  by (simp add: calculateBezierPoint_newPoints_def foldl_push_map)

lemma intermediatePoints_newPoints_eq:
  "intermediatePoints_newPoints t cps = calculateBezierPoint_newPoints t cps"
  by (simp add: intermediatePoints_newPoints_def calculateBezierPoint_newPoints_def)

lemma length_newPoints [simp]:
  "length (calculateBezierPoint_newPoints t cps) = length cps - 1"
  by (simp add: calculateBezierPoint_newPoints_map)

lemma calculateBezierPoint_Some_nonempty:
  assumes "calculateBezierPoint t cps = Some q"
  shows "cps \<noteq> []"
proof (rule calculateBezierPoint.raw_induct [where P = "\<lambda>t cps q. cps \<noteq> []", OF _ assms])
  fix f :: "real \<Rightarrow> Point list \<Rightarrow> Point option" and t' cps' q'
  assume IH: "\<And>t cps q. f t cps = Some q \<Longrightarrow> cps \<noteq> []"
    and body: "(if length cps' = 1 then Some (cps' ! 0)
                else let newPoints = calculateBezierPoint_newPoints t' cps'
                     in f t' newPoints) = Some q'"
  show "cps' \<noteq> []"
  proof
    assume "cps' = []"
    with body have "f t' (calculateBezierPoint_newPoints t' []) = Some q'"
      by (simp add: Let_def)
    then have "calculateBezierPoint_newPoints t' [] \<noteq> []"
      by (rule IH)
    then show False by (simp add: calculateBezierPoint_newPoints_map)
  qed
qed

lemma calculateBezierPoint_Nil: "calculateBezierPoint t [] = None"
  using calculateBezierPoint_Some_nonempty [of t "[]"]
  by (cases "calculateBezierPoint t []") auto

lemma while_agrees:
  "cps \<noteq> [] \<Longrightarrow> acc \<noteq> [] \<Longrightarrow> last acc = cps \<Longrightarrow>
     \<exists>p. last (intermediatePoints_while t cps acc) = [p] \<and> calculateBezierPoint t cps = Some p"
proof (induction t cps acc rule: intermediatePoints_while.induct)
  case (1 t cps acc)
  show ?case
  proof (cases "1 < length cps")
    case True
    let ?np = "intermediatePoints_newPoints t cps"
    have ne: "?np \<noteq> []"
      using True by (simp add: intermediatePoints_newPoints_eq flip: length_greater_0_conv)
    have "\<exists>p. last (intermediatePoints_while t ?np (acc @ [?np])) = [p]
              \<and> calculateBezierPoint t ?np = Some p"
      by (rule "1.IH" [OF True refl ne]) simp_all
    moreover have "intermediatePoints_while t cps acc = intermediatePoints_while t ?np (acc @ [?np])"
      using True by (subst intermediatePoints_while.simps) (simp add: Let_def)
    moreover have "calculateBezierPoint t cps = calculateBezierPoint t ?np"
      using True by (subst calculateBezierPoint.simps) (simp add: Let_def intermediatePoints_newPoints_eq)
    ultimately show ?thesis by simp
  next
    case False
    with "1.prems" have len: "length cps = 1"
      by (cases cps) auto
    then obtain p where p: "cps = [p]"
      by (cases cps) auto
    have "intermediatePoints_while t cps acc = acc"
      using False by (subst intermediatePoints_while.simps) simp
    moreover have "calculateBezierPoint t cps = Some p"
      using p by (subst calculateBezierPoint.simps) simp
    ultimately show ?thesis using "1.prems" p by simp
  qed
qed

subsection \<open>Unfolding the loop and the recursion\<close>

lemma while_unfold_more:
  "1 < length cps \<Longrightarrow>
     intermediatePoints_while t cps acc =
       intermediatePoints_while t (calculateBezierPoint_newPoints t cps)
         (acc @ [calculateBezierPoint_newPoints t cps])"
  by (subst intermediatePoints_while.simps) (simp add: Let_def intermediatePoints_newPoints_eq)

lemma while_unfold_done:
  "\<not> 1 < length cps \<Longrightarrow> intermediatePoints_while t cps acc = acc"
  by (subst intermediatePoints_while.simps) simp

lemma while_append:
  "intermediatePoints_while t cps acc = acc @ intermediatePoints_while t cps []"
proof (induction "length cps" arbitrary: cps acc rule: less_induct)
  case less
  show ?case
  proof (cases "1 < length cps")
    case True
    let ?np = "calculateBezierPoint_newPoints t cps"
    have smaller: "length ?np < length cps" using True by simp
    have "intermediatePoints_while t cps acc = (acc @ [?np]) @ intermediatePoints_while t ?np []"
      using less [OF smaller, of "acc @ [?np]"] True by (simp add: while_unfold_more)
    moreover have "intermediatePoints_while t cps [] = [?np] @ intermediatePoints_while t ?np []"
      using less [OF smaller, of "[?np]"] True by (simp add: while_unfold_more)
    ultimately show ?thesis by simp
  next
    case False
    then show ?thesis by (simp add: while_unfold_done)
  qed
qed

lemma while_Nil_more:
  "1 < length cps \<Longrightarrow>
     intermediatePoints_while t cps [] =
       calculateBezierPoint_newPoints t cps
         # intermediatePoints_while t (calculateBezierPoint_newPoints t cps) []"
  using while_append [of t "calculateBezierPoint_newPoints t cps" "[calculateBezierPoint_newPoints t cps]"]
  by (simp add: while_unfold_more)

lemma length_while_Nil:
  "length (intermediatePoints_while t cps []) = length cps - 1"
proof (induction "length cps" arbitrary: cps rule: less_induct)
  case less
  show ?case
  proof (cases "1 < length cps")
    case True
    then show ?thesis
      using less [of "calculateBezierPoint_newPoints t cps"]
      by (simp add: while_Nil_more)
  next
    case False
    then show ?thesis by (simp add: while_unfold_done)
  qed
qed

lemma length_while_Nil_nth:
  "k < length cps - 1 \<Longrightarrow>
     length (intermediatePoints_while t cps [] ! k) = length cps - 1 - k"
proof (induction k arbitrary: cps)
  case 0
  then show ?case by (simp add: while_Nil_more)
next
  case (Suc k)
  then have more: "1 < length cps" by simp
  have "k < length (calculateBezierPoint_newPoints t cps) - 1"
    using Suc.prems by simp
  from Suc.IH [OF this] more show ?case
    by (simp add: while_Nil_more)
qed

lemma intermediatePoints_split:
  "intermediatePoints s = points_st s # intermediatePoints_while (t_st s) (points_st s) []"
  using while_append [of "t_st s" "points_st s" "[points_st s]"]
  by (simp add: intermediatePoints_def Let_def)

lemma newPoints_nth:
  "i < length cps - 1 \<Longrightarrow>
     calculateBezierPoint_newPoints t cps ! i =
       \<lparr>x = (1 - t) * x (cps ! i) + t * x (cps ! (i + 1)),
        y = (1 - t) * y (cps ! i) + t * y (cps ! (i + 1))\<rparr>"
  by (simp add: calculateBezierPoint_newPoints_map)

lemma calculateBezierPoint_single:
  "length cps = 1 \<Longrightarrow> calculateBezierPoint t cps = Some (cps ! 0)"
  by (subst calculateBezierPoint.simps) simp

lemma calculateBezierPoint_more:
  "length cps \<noteq> 1 \<Longrightarrow>
     calculateBezierPoint t cps = calculateBezierPoint t (calculateBezierPoint_newPoints t cps)"
  by (subst calculateBezierPoint.simps) (simp add: Let_def)

lemma calculateBezierPoint_at_0:
  "length cps = Suc n \<Longrightarrow> calculateBezierPoint 0 cps = Some (cps ! 0)"
proof (induction n arbitrary: cps)
  case 0
  then show ?case by (simp add: calculateBezierPoint_single)
next
  case (Suc n)
  let ?np = "calculateBezierPoint_newPoints 0 cps"
  have "length ?np = Suc n" using Suc.prems by simp
  then have "calculateBezierPoint 0 ?np = Some (?np ! 0)" by (rule Suc.IH)
  moreover have "?np ! 0 = cps ! 0"
    using Suc.prems by (simp add: newPoints_nth)
  ultimately show ?case
    using Suc.prems by (simp add: calculateBezierPoint_more)
qed

lemma calculateBezierPoint_at_1:
  "length cps = Suc n \<Longrightarrow> calculateBezierPoint 1 cps = Some (cps ! n)"
proof (induction n arbitrary: cps)
  case 0
  then show ?case by (simp add: calculateBezierPoint_single)
next
  case (Suc n)
  let ?np = "calculateBezierPoint_newPoints 1 cps"
  have "length ?np = Suc n" using Suc.prems by simp
  then have "calculateBezierPoint 1 ?np = Some (?np ! n)" by (rule Suc.IH)
  moreover have "?np ! n = cps ! Suc n"
    using Suc.prems by (simp add: newPoints_nth)
  ultimately show ?case
    using Suc.prems by (simp add: calculateBezierPoint_more)
qed

lemma calculateBezierPoint_depth_single:
  "length cps = 1 \<Longrightarrow> calculateBezierPoint_depth t cps d = Some (cps ! 0, d)"
  by (subst calculateBezierPoint_depth.simps) simp

lemma calculateBezierPoint_depth_more:
  "length cps \<noteq> 1 \<Longrightarrow>
     calculateBezierPoint_depth t cps d =
       calculateBezierPoint_depth t (calculateBezierPoint_newPoints t cps) (d + 1)"
  by (subst calculateBezierPoint_depth.simps) (simp add: Let_def)

lemma calculateBezierPoint_returns:
  "length cps = Suc n \<Longrightarrow>
     \<exists>p. calculateBezierPoint t cps = Some p \<and>
         calculateBezierPoint_depth t cps d = Some (p, d + n)"
proof (induction n arbitrary: cps d)
  case 0
  then show ?case
    by (simp add: calculateBezierPoint_single calculateBezierPoint_depth_single)
next
  case (Suc n)
  let ?np = "calculateBezierPoint_newPoints t cps"
  have "length ?np = Suc n" using Suc.prems by simp
  from Suc.IH [OF this, of "d + 1"] Suc.prems show ?case
    by (simp add: calculateBezierPoint_more calculateBezierPoint_depth_more)
qed

lemma those_map_Some:
  "(\<And>i. i \<in> set js \<Longrightarrow> f i = Some (g i)) \<Longrightarrow> those (map f js) = Some (map g js)"
  by (induction js) simp_all

subsection \<open>The order effect and the drag handler\<close>

lemma calculateBezierPoint_total:
  "controlPoints \<noteq> [] \<Longrightarrow> \<exists>p. calculateBezierPoint t controlPoints = Some p"
proof -
  assume "controlPoints \<noteq> []"
  then obtain n where "length controlPoints = Suc n"
    by (cases controlPoints) auto
  from calculateBezierPoint_returns [OF this, of t 0] show ?thesis by blast
qed

lemma safeOrder_Num: "safeOrder (Num n) = Num (max 1 (min 100 n))"
  by (simp add: safeOrder_def)

lemma safeOrder_NaN: "safeOrder NaN = NaN"
  by (simp add: safeOrder_def)

lemma useEffect_order_Num:
  "order_st s = Num n \<Longrightarrow>
     useEffect_order s =
       s\<lparr>points_st :=
           map (\<lambda>i. \<lparr>x = 50 + (real i * 700) / real_of_int (max 1 (min 100 n)),
                      y = 200 - sin ((real i * pi) / real_of_int (max 1 (min 100 n))) * 150\<rparr>)
               [0..<nat (max 1 (min 100 n)) + 1]\<rparr>"
proof -
  assume o: "order_st s = Num n"
  have "nat (max 1 (min 100 n) + 1) = nat (max 1 (min 100 n)) + 1"
    by simp
  then show ?thesis
    using o by (simp add: useEffect_order_def safeOrder_Num Let_def)
qed

lemma useEffect_order_NaN: "order_st s = NaN \<Longrightarrow> useEffect_order s = s"
  by (simp add: useEffect_order_def safeOrder_NaN)

lemma Array_map_replace:
  "Array_map (\<lambda>p i. if i = d then v else p) ps = (if d < length ps then ps[d := v] else ps)"
  by (rule nth_equalityI) (auto simp: Array_map_def nth_list_update)

subsection \<open>The number of control points is invariant\<close>

lemma length_useEffect_order:
  "2 \<le> length (points_st s) \<and> length (points_st s) \<le> 101 \<or> order_st s \<noteq> NaN \<Longrightarrow>
     2 \<le> length (points_st (useEffect_order s)) \<and> length (points_st (useEffect_order s)) \<le> 101"
proof (cases "order_st s")
  case NaN
  assume "2 \<le> length (points_st s) \<and> length (points_st s) \<le> 101 \<or> order_st s \<noteq> NaN"
  with NaN show ?thesis by (simp add: useEffect_order_NaN)
next
  case (Num n)
  have "2 \<le> nat (max 1 (min 100 n)) + 1" "nat (max 1 (min 100 n)) + 1 \<le> 101"
    by linarith+
  then show ?thesis
    by (simp add: useEffect_order_Num [OF Num])
qed

lemma length_handleMouseMove:
  "length (points_st (handleMouseMove s transformed)) = length (points_st s)"
  by (simp add: handleMouseMove_def Let_def Array_map_replace split: option.splits)

lemma reachable_points_length:
  "reachable s \<Longrightarrow> 2 \<le> length (points_st s) \<and> length (points_st s) \<le> 101"
proof (induction rule: reachable.induct)
  case mount
  show ?case
    by (rule length_useEffect_order) (simp add: App_init_def)
next
  case (slider s newT)
  then show ?case by (simp add: setT_def)
next
  case (order_field s newOrder)
  then show ?case by (simp add: setOrder_def)
next
  case (effect s)
  then show ?case
    by (intro length_useEffect_order) simp
next
  case (mouse_down s index)
  then show ?case by (simp add: handleMouseDown_def)
next
  case (mouse_move s transformed)
  then show ?case by (simp add: length_handleMouseMove)
next
  case (mouse_up s)
  then show ?case by (simp add: handleMouseUp_def)
qed

subsection \<open>Entries in the order field\<close>

lemma order_onChange_same: "order_st s = newOrder \<Longrightarrow> order_onChange s newOrder = s"
  by (simp add: order_onChange_def setOrder_def Let_def)

lemma order_onChange_changed:
  "order_st s \<noteq> newOrder \<Longrightarrow> order_onChange s newOrder = useEffect_order (setOrder s newOrder)"
  by (auto simp: order_onChange_def setOrder_def Let_def)

lemma order_st_useEffect_order: "order_st (useEffect_order s) = order_st s"
  by (simp add: useEffect_order_def Let_def)

lemma order_st_handleMouseMove: "order_st (handleMouseMove s transformed) = order_st s"
  by (simp add: handleMouseMove_def Let_def split: option.splits)

lemma length_useEffect_order_Num:
  "order_st s = Num n \<Longrightarrow>
     length (points_st (useEffect_order s)) = nat (max 1 (min 100 n)) + 1"
  by (simp add: useEffect_order_Num)

lemma settled_count:
  "settled s \<Longrightarrow> order_st s = Num n \<Longrightarrow>
     length (points_st s) = nat (max 1 (min 100 n)) + 1"
proof (induction arbitrary: n rule: settled.induct)
  case first_effect
  then show ?case
    by (simp add: order_st_useEffect_order length_useEffect_order_Num)
next
  case (slider_moved s newT)
  then show ?case by (simp add: setT_def)
next
  case (order_entered s newOrder)
  show ?case
  proof (cases "order_st s = newOrder")
    case True
    with order_entered show ?thesis by (simp add: order_onChange_same)
  next
    case False
    have run: "order_onChange s newOrder = useEffect_order (setOrder s newOrder)"
      by (rule order_onChange_changed [OF False])
    from order_entered.prems have "order_st (setOrder s newOrder) = Num n"
      by (simp add: run order_st_useEffect_order)
    then show ?thesis
      unfolding run by (rule length_useEffect_order_Num)
  qed
next
  case (pressed s index)
  then show ?case by (simp add: handleMouseDown_def)
next
  case (moved s transformed)
  then show ?case
    by (simp add: length_handleMouseMove order_st_handleMouseMove)
next
  case (released s)
  then show ?case by (simp add: handleMouseUp_def)
qed

lemma settled_reachable: "settled s \<Longrightarrow> reachable s"
proof (induction rule: settled.induct)
  case first_effect
  show ?case by (rule reachable.mount)
next
  case (order_entered s newOrder)
  then show ?case
    by (cases "order_st s = newOrder")
      (auto simp: order_onChange_same order_onChange_changed
        intro: reachable.effect reachable.order_field)
qed (auto intro: reachable.intros)

section \<open>The properties\<close>

subsection \<open>C1: the recursion and the level construction agree\<close>

text \<open>
  Claim C1. For every \<open>t\<close> (in particular every \<open>t\<close> in [0,1]) and every non-empty
  sequence of control points, the last level built by \<open>intermediatePoints\<close> holds
  exactly one point, and \<open>calculateBezierPoint\<close> returns that point.
\<close>

theorem evaluate_agrees_with_levels:
  "points_st s \<noteq> [] \<Longrightarrow>
     \<exists>p. last (intermediatePoints s) = [p] \<and>
         calculateBezierPoint (t_st s) (points_st s) = Some p"
  using while_agrees [of "points_st s" "[points_st s]" "t_st s"]
  by (simp add: intermediatePoints_def Let_def)

theorem evaluate_agrees_with_levels_witness:
  "points_st \<lparr>t_st = 1 / 2, order_st = Num 2,
              points_st = [\<lparr>x = 0, y = 0\<rparr>, \<lparr>x = 10, y = 4\<rparr>, \<lparr>x = 20, y = 0\<rparr>],
              draggingIndex_st = None\<rparr> \<noteq> [] \<and>
   (\<exists>p. last (intermediatePoints
              \<lparr>t_st = 1 / 2, order_st = Num 2,
               points_st = [\<lparr>x = 0, y = 0\<rparr>, \<lparr>x = 10, y = 4\<rparr>, \<lparr>x = 20, y = 0\<rparr>],
               draggingIndex_st = None\<rparr>) = [p] \<and>
        calculateBezierPoint (1 / 2) [\<lparr>x = 0, y = 0\<rparr>, \<lparr>x = 10, y = 4\<rparr>, \<lparr>x = 20, y = 0\<rparr>]
          = Some p \<and> p = \<lparr>x = 10, y = 2\<rparr>)"
  using evaluate_agrees_with_levels
    [of "\<lparr>t_st = 1 / 2, order_st = Num 2,
          points_st = [\<lparr>x = 0, y = 0\<rparr>, \<lparr>x = 10, y = 4\<rparr>, \<lparr>x = 20, y = 0\<rparr>],
          draggingIndex_st = None\<rparr>"]
  by (simp add: calculateBezierPoint_more calculateBezierPoint_single
      calculateBezierPoint_newPoints_map upt_rec)

subsection \<open>C2: the number and the sizes of the levels\<close>

text \<open>
  Claim C2 asks for exactly \<open>length points\<close> levels for every sequence. On the empty
  sequence of the first render (\<open>App_init\<close>) the result is the single level \<open>[[]]\<close>:
  one level, not zero.
\<close>

theorem levels_count_counterexample:
  "length (intermediatePoints App_init) = 1 \<and> length (points_st App_init) = 0"
  by (simp add: App_init_def intermediatePoints_def Let_def while_unfold_done)

text \<open>
  Claim C2, amended. \<open>intermediatePoints\<close> returns \<open>max 1 (length points)\<close> levels,
  which is \<open>length points\<close> levels for every non-empty sequence; level \<open>k\<close> has
  \<open>length points - k\<close> points; and a sequence of 0 or 1 points comes back as the sole
  level.
\<close>

theorem levels_shape:
  "length (intermediatePoints s) = max 1 (length (points_st s)) \<and>
   (points_st s \<noteq> [] \<longrightarrow> length (intermediatePoints s) = length (points_st s)) \<and>
   (\<forall>k < length (intermediatePoints s).
      length (intermediatePoints s ! k) = length (points_st s) - k) \<and>
   (length (points_st s) \<le> 1 \<longrightarrow> intermediatePoints s = [points_st s])"
proof -
  let ?ps = "points_st s"
  let ?rest = "intermediatePoints_while (t_st s) ?ps []"
  have split: "intermediatePoints s = ?ps # ?rest"
    by (rule intermediatePoints_split)
  have len: "length (intermediatePoints s) = Suc (length ?ps - 1)"
    by (simp add: split length_while_Nil)
  have count: "length (intermediatePoints s) = max 1 (length ?ps)"
    using len by (cases ?ps) simp_all
  have nonempty: "?ps \<noteq> [] \<longrightarrow> length (intermediatePoints s) = length ?ps"
    using len by (cases ?ps) simp_all
  have level: "length (intermediatePoints s ! k) = length ?ps - k"
    if "k < length (intermediatePoints s)" for k
  proof (cases k)
    case 0
    then show ?thesis by (simp add: split)
  next
    case (Suc j)
    with that len have "j < length ?ps - 1" by simp
    then show ?thesis
      using Suc by (simp add: split length_while_Nil_nth)
  qed
  have small: "length ?ps \<le> 1 \<longrightarrow> intermediatePoints s = [?ps]"
    by (simp add: split while_unfold_done)
  from count nonempty level small show ?thesis by blast
qed

theorem levels_shape_witness:
  "length (intermediatePoints
      \<lparr>t_st = 1 / 2, order_st = Num 2,
       points_st = [\<lparr>x = 0, y = 0\<rparr>, \<lparr>x = 10, y = 4\<rparr>, \<lparr>x = 20, y = 0\<rparr>],
       draggingIndex_st = None\<rparr>) = 3 \<and>
   length (intermediatePoints
      \<lparr>t_st = 1 / 2, order_st = Num 2,
       points_st = [\<lparr>x = 0, y = 0\<rparr>, \<lparr>x = 10, y = 4\<rparr>, \<lparr>x = 20, y = 0\<rparr>],
       draggingIndex_st = None\<rparr> ! 1) = 2 \<and>
   intermediatePoints
      \<lparr>t_st = 1 / 2, order_st = Num 1, points_st = [\<lparr>x = 7, y = 9\<rparr>],
       draggingIndex_st = None\<rparr> = [[\<lparr>x = 7, y = 9\<rparr>]]"
  using levels_shape
    [of "\<lparr>t_st = 1 / 2, order_st = Num 2,
          points_st = [\<lparr>x = 0, y = 0\<rparr>, \<lparr>x = 10, y = 4\<rparr>, \<lparr>x = 20, y = 0\<rparr>],
          draggingIndex_st = None\<rparr>"]
    levels_shape
    [of "\<lparr>t_st = 1 / 2, order_st = Num 1, points_st = [\<lparr>x = 7, y = 9\<rparr>],
          draggingIndex_st = None\<rparr>"]
  by simp

subsection \<open>C3: the empty sequence\<close>

text \<open>
  Claim C3 asks that \<open>calculateBezierPoint\<close> on the empty sequence yields a designated
  error. At \<open>t = 0\<close> the call on \<open>[]\<close> yields nothing at all: the base case tests for
  length 1, the loop builds \<open>[]\<close> again, and the recursion goes on.
\<close>

theorem evaluate_empty_counterexample:
  "calculateBezierPoint 0 [] = None"
  by (rule calculateBezierPoint_Nil)

text \<open>
  Claim C3, amended. The empty sequence is kept away from \<open>calculateBezierPoint\<close> by
  the guard of its only caller: \<open>curvePoints\<close> on a state without points is the empty
  sequence, with no call made; and on every non-empty sequence
  \<open>calculateBezierPoint\<close> returns a point.
\<close>

theorem evaluate_empty_guarded:
  "curvePoints (s\<lparr>points_st := []\<rparr>) = Some [] \<and>
   (controlPoints \<noteq> [] \<longrightarrow> (\<exists>p. calculateBezierPoint t controlPoints = Some p))"
  using calculateBezierPoint_total [of controlPoints t]
  by (simp add: curvePoints_def)

theorem evaluate_empty_guarded_witness:
  "curvePoints (App_init\<lparr>points_st := []\<rparr>) = Some [] \<and>
   [\<lparr>x = 0, y = 0\<rparr>, \<lparr>x = 10, y = 4\<rparr>] \<noteq> [] \<and>
   (\<exists>p. calculateBezierPoint (1 / 2) [\<lparr>x = 0, y = 0\<rparr>, \<lparr>x = 10, y = 4\<rparr>] = Some p)"
  using evaluate_empty_guarded [of App_init "[\<lparr>x = 0, y = 0\<rparr>, \<lparr>x = 10, y = 4\<rparr>]" "1 / 2"]
  by simp

subsection \<open>C4: the curve starts and ends at the outer control points\<close>

text \<open>
  Claim C4. For every sequence of at least one control point, \<open>calculateBezierPoint\<close>
  at \<open>t = 0\<close> returns the first control point and at \<open>t = 1\<close> the last one.
\<close>

theorem evaluate_endpoints:
  "controlPoints \<noteq> [] \<Longrightarrow>
     calculateBezierPoint 0 controlPoints = Some (controlPoints ! 0) \<and>
     calculateBezierPoint 1 controlPoints = Some (controlPoints ! (length controlPoints - 1))"
proof -
  assume "controlPoints \<noteq> []"
  then obtain n where n: "length controlPoints = Suc n"
    by (cases controlPoints) auto
  from calculateBezierPoint_at_0 [OF n] calculateBezierPoint_at_1 [OF n] n
  show ?thesis by simp
qed

theorem evaluate_endpoints_witness:
  "[\<lparr>x = 0, y = 0\<rparr>, \<lparr>x = 10, y = 4\<rparr>, \<lparr>x = 20, y = 1\<rparr>] \<noteq> [] \<and>
   calculateBezierPoint 0 [\<lparr>x = 0, y = 0\<rparr>, \<lparr>x = 10, y = 4\<rparr>, \<lparr>x = 20, y = 1\<rparr>]
     = Some \<lparr>x = 0, y = 0\<rparr> \<and>
   calculateBezierPoint 1 [\<lparr>x = 0, y = 0\<rparr>, \<lparr>x = 10, y = 4\<rparr>, \<lparr>x = 20, y = 1\<rparr>]
     = Some \<lparr>x = 20, y = 1\<rparr>"
  using evaluate_endpoints [of "[\<lparr>x = 0, y = 0\<rparr>, \<lparr>x = 10, y = 4\<rparr>, \<lparr>x = 20, y = 1\<rparr>]"]
  by simp

subsection \<open>C5: the sampled curve\<close>

text \<open>
  Claim C5. For a non-empty sequence of control points \<open>curvePoints\<close> returns exactly
  100 points, the \<open>i\<close>-th being the value of \<open>calculateBezierPoint\<close> at \<open>i / 99\<close>; so
  the first is its value at 0 and the last its value at 1. For the empty sequence it
  returns the empty sequence.
\<close>

theorem sample_shape:
  "(points_st s \<noteq> [] \<longrightarrow>
      (\<exists>samples. curvePoints s = Some samples \<and> length samples = 100 \<and>
         (\<forall>i < 100. calculateBezierPoint (real i / 99) (points_st s) = Some (samples ! i)) \<and>
         calculateBezierPoint 0 (points_st s) = Some (samples ! 0) \<and>
         calculateBezierPoint 1 (points_st s) = Some (samples ! 99))) \<and>
   (points_st s = [] \<longrightarrow> curvePoints s = Some [])"
proof (intro conjI impI)
  assume ne: "points_st s \<noteq> []"
  define g where "g i = the (calculateBezierPoint (real i / 99) (points_st s))" for i :: nat
  have each: "calculateBezierPoint (real i / 99) (points_st s) = Some (g i)" for i
    using calculateBezierPoint_total [OF ne, of "real i / 99"] by (auto simp: g_def)
  have "those (map (\<lambda>i. calculateBezierPoint (real i / 99) (points_st s)) [0..<100])
          = Some (map g [0..<100])"
    by (rule those_map_Some) (rule each)
  then have cp: "curvePoints s = Some (map g [0..<100])"
    using ne by (simp add: curvePoints_def Let_def)
  have nth: "map g [0..<100] ! i = g i" if "i < 100" for i
    using that by simp
  have all: "\<forall>i < 100. calculateBezierPoint (real i / 99) (points_st s) = Some (map g [0..<100] ! i)"
    using each nth by simp
  have first: "calculateBezierPoint 0 (points_st s) = Some (map g [0..<100] ! 0)"
    using each [of 0] nth [of 0] by simp
  have final: "calculateBezierPoint 1 (points_st s) = Some (map g [0..<100] ! 99)"
    using each [of 99] nth [of 99] by simp
  from cp all first final
  show "\<exists>samples. curvePoints s = Some samples \<and> length samples = 100 \<and>
         (\<forall>i < 100. calculateBezierPoint (real i / 99) (points_st s) = Some (samples ! i)) \<and>
         calculateBezierPoint 0 (points_st s) = Some (samples ! 0) \<and>
         calculateBezierPoint 1 (points_st s) = Some (samples ! 99)"
    by (intro exI [of _ "map g [0..<100]"]) simp
next
  assume "points_st s = []"
  then show "curvePoints s = Some []" by (simp add: curvePoints_def)
qed

theorem sample_shape_witness:
  "(\<exists>samples.
      curvePoints \<lparr>t_st = 1 / 2, order_st = Num 1,
                   points_st = [\<lparr>x = 0, y = 0\<rparr>, \<lparr>x = 99, y = 198\<rparr>],
                   draggingIndex_st = None\<rparr> = Some samples \<and>
      length samples = 100 \<and>
      samples ! 0 = \<lparr>x = 0, y = 0\<rparr> \<and> samples ! 50 = \<lparr>x = 50, y = 100\<rparr> \<and>
      samples ! 99 = \<lparr>x = 99, y = 198\<rparr>) \<and>
   curvePoints App_init = Some []"
proof -
  let ?s = "\<lparr>t_st = 1 / 2, order_st = Num 1,
             points_st = [\<lparr>x = 0, y = 0\<rparr>, \<lparr>x = 99, y = 198\<rparr>],
             draggingIndex_st = None\<rparr>"
  have two: "calculateBezierPoint t [\<lparr>x = 0, y = 0\<rparr>, \<lparr>x = 99, y = 198\<rparr>]
               = Some \<lparr>x = t * 99, y = t * 198\<rparr>" for t
    by (simp add: calculateBezierPoint_more calculateBezierPoint_single
        calculateBezierPoint_newPoints_map)
  from sample_shape [of ?s] obtain samples where
    cp: "curvePoints ?s = Some samples" and len: "length samples = 100" and
    each: "\<forall>i < 100. calculateBezierPoint (real i / 99) (points_st ?s) = Some (samples ! i)"
    by auto
  from each have at: "calculateBezierPoint (real i / 99) (points_st ?s) = Some (samples ! i)"
    if "i < 100" for i
    using that by blast
  have "samples ! 0 = \<lparr>x = 0, y = 0\<rparr>"
    using at [of 0] by (simp add: two)
  moreover have "samples ! 50 = \<lparr>x = 50, y = 100\<rparr>"
    using at [of 50] by (simp add: two)
  moreover have "samples ! 99 = \<lparr>x = 99, y = 198\<rparr>"
    using at [of 99] by (simp add: two)
  moreover have "curvePoints App_init = Some []"
    using sample_shape [of App_init] by (simp add: App_init_def)
  ultimately show ?thesis using cp len by simp
qed

subsection \<open>C6: the layout after a change of order\<close>

text \<open>
  Claim C6 asks that every \<open>setOrder(n)\<close> replaces the whole sequence by the layout
  of the clamped order. After the first effect (order 3), with control point 1 dragged
  to (300, 250), the entry 3 changes nothing: \<^verbatim>\<open>order\<close> keeps its value, no effect
  runs, and the dragged point stays instead of returning to the layout of order 3.
\<close>

theorem order_unchanged_counterexample:
  "settled (handleMouseMove (handleMouseDown (useEffect_order App_init) 1)
      (Some \<lparr>x = 300, y = 250\<rparr>)) \<and>
   order_st (handleMouseMove (handleMouseDown (useEffect_order App_init) 1)
      (Some \<lparr>x = 300, y = 250\<rparr>)) = Num 3 \<and>
   order_onChange
     (handleMouseMove (handleMouseDown (useEffect_order App_init) 1) (Some \<lparr>x = 300, y = 250\<rparr>))
     (Num 3)
   = handleMouseMove (handleMouseDown (useEffect_order App_init) 1) (Some \<lparr>x = 300, y = 250\<rparr>) \<and>
   points_st (order_onChange
     (handleMouseMove (handleMouseDown (useEffect_order App_init) 1) (Some \<lparr>x = 300, y = 250\<rparr>))
     (Num 3)) ! 1 = \<lparr>x = 300, y = 250\<rparr> \<and>
   points_st (order_onChange
     (handleMouseMove (handleMouseDown (useEffect_order App_init) 1) (Some \<lparr>x = 300, y = 250\<rparr>))
     (Num 3))
   \<noteq> map (\<lambda>i. \<lparr>x = 50 + (real i * 700) / real_of_int 3,
                  y = 200 - sin ((real i * pi) / real_of_int 3) * 150\<rparr>)
          [0..<nat 3 + 1]"
proof -
  let ?mounted = "useEffect_order App_init"
  let ?dragged = "handleMouseMove (handleMouseDown ?mounted 1) (Some \<lparr>x = 300, y = 250\<rparr>)"
  let ?layout = "map (\<lambda>i. \<lparr>x = 50 + (real i * 700) / real_of_int 3,
                         y = 200 - sin ((real i * pi) / real_of_int 3) * 150\<rparr>)
                   [0..<nat 3 + 1]"
  have len: "length (points_st ?mounted) = 4"
    using length_useEffect_order_Num [of App_init 3] by (simp add: App_init_def)
  have "settled (handleMouseDown ?mounted 1)"
    by (rule settled.pressed [OF settled.first_effect]) (simp add: len)
  then have st: "settled ?dragged"
    by (rule settled.moved)
  have ord: "order_st ?dragged = Num 3"
    by (simp add: order_st_handleMouseMove handleMouseDown_def order_st_useEffect_order App_init_def)
  have same: "order_onChange ?dragged (Num 3) = ?dragged"
    by (rule order_onChange_same [OF ord])
  have pt: "points_st ?dragged ! 1 = \<lparr>x = 300, y = 250\<rparr>"
    using len by (simp add: handleMouseMove_def handleMouseDown_def Let_def Array_map_replace)
  have lx: "x (?layout ! 1) = 50 + 700 / 3"
    by simp
  have px: "x (points_st ?dragged ! 1) = 300"
    unfolding pt by simp
  have "x (?layout ! 1) \<noteq> x (points_st ?dragged ! 1)"
    unfolding lx px by simp
  then have differ: "points_st ?dragged \<noteq> ?layout"
    by metis
  from st ord same pt differ show ?thesis by simp
qed

text \<open>
  Claim C6, amended. For every integer \<open>n\<close> the clamped order
  \<open>c = max 1 (min 100 n)\<close> lies in [1,100]; \<open>n\<close> in [1,100] is kept, \<open>n < 1\<close> clamps to
  1 and \<open>n > 100\<close> to 100. An entry \<open>n\<close> that differs from the current order replaces
  the whole sequence by \<open>c + 1\<close> points, point \<open>i\<close> at \<open>x = 50 + i * 700 / c\<close> and
  \<open>y = 200 - sin (i * pi / c) * 150\<close>, and changes nothing else; an entry equal to the
  current order leaves the state, dragged points included, as it is. In both cases
  the sequence then has \<open>c + 1\<close> points (\<open>n + 1\<close> for \<open>n\<close> in [1,100]) in every state
  in which the component rests.
\<close>

theorem order_change_layout:
  "safeOrder (Num n) = Num (max 1 (min 100 n)) \<and>
   1 \<le> max 1 (min 100 n) \<and> max 1 (min 100 n) \<le> 100 \<and>
   (order_st s \<noteq> Num n \<longrightarrow>
      order_onChange s (Num n) =
        s\<lparr>order_st := Num n,
          points_st :=
            map (\<lambda>i. \<lparr>x = 50 + (real i * 700) / real_of_int (max 1 (min 100 n)),
                       y = 200 - sin ((real i * pi) / real_of_int (max 1 (min 100 n))) * 150\<rparr>)
                [0..<nat (max 1 (min 100 n)) + 1]\<rparr>) \<and>
   (order_st s = Num n \<longrightarrow> order_onChange s (Num n) = s) \<and>
   (order_st s \<noteq> Num n \<or> settled s \<longrightarrow>
      length (points_st (order_onChange s (Num n))) = nat (max 1 (min 100 n)) + 1 \<and>
      (1 \<le> n \<and> n \<le> 100 \<longrightarrow>
         length (points_st (order_onChange s (Num n))) = nat n + 1)) \<and>
   (1 \<le> n \<and> n \<le> 100 \<longrightarrow> safeOrder (Num n) = Num n) \<and>
   (n < 1 \<longrightarrow> safeOrder (Num n) = Num 1) \<and>
   (100 < n \<longrightarrow> safeOrder (Num n) = Num 100)"
proof -
  let ?c = "max 1 (min 100 n)"
  have changed: "order_onChange s (Num n) =
        s\<lparr>order_st := Num n,
          points_st :=
            map (\<lambda>i. \<lparr>x = 50 + (real i * 700) / real_of_int ?c,
                       y = 200 - sin ((real i * pi) / real_of_int ?c) * 150\<rparr>)
                [0..<nat ?c + 1]\<rparr>"
    if "order_st s \<noteq> Num n"
    using useEffect_order_Num [of "setOrder s (Num n)" n] that
    by (simp add: order_onChange_changed setOrder_def)
  have same: "order_onChange s (Num n) = s" if "order_st s = Num n"
    using that by (rule order_onChange_same)
  have count: "length (points_st (order_onChange s (Num n))) = nat ?c + 1"
    if "order_st s \<noteq> Num n \<or> settled s"
  proof (cases "order_st s = Num n")
    case True
    with that have "settled s" by simp
    from settled_count [OF this True] show ?thesis by (simp add: same [OF True])
  next
    case False
    show ?thesis unfolding changed [OF False] by simp
  qed
  have count_inside: "length (points_st (order_onChange s (Num n))) = nat n + 1"
    if "order_st s \<noteq> Num n \<or> settled s" "1 \<le> n \<and> n \<le> 100"
    using count [OF that(1)] that(2) by simp
  have clamp: "safeOrder (Num n) = Num ?c" "1 \<le> ?c" "?c \<le> 100"
    by (simp_all add: safeOrder_Num)
  have inside: "1 \<le> n \<and> n \<le> 100 \<longrightarrow> safeOrder (Num n) = Num n"
    and below: "n < 1 \<longrightarrow> safeOrder (Num n) = Num 1"
    and above: "100 < n \<longrightarrow> safeOrder (Num n) = Num 100"
    by (simp_all add: safeOrder_Num)
  from changed same count count_inside clamp inside below above
  show ?thesis by blast
qed

theorem order_change_layout_witness:
  "order_st (useEffect_order App_init) \<noteq> Num 1 \<and>
   map x (points_st (order_onChange (useEffect_order App_init) (Num 1))) = [50, 750] \<and>
   settled (useEffect_order App_init) \<and>
   order_st (useEffect_order App_init) = Num 3 \<and>
   order_onChange (useEffect_order App_init) (Num 3) = useEffect_order App_init \<and>
   length (points_st (order_onChange (useEffect_order App_init) (Num 3))) = 4 \<and>
   safeOrder (Num (- 7)) = Num 1 \<and> safeOrder (Num 250) = Num 100 \<and>
   length (points_st (order_onChange (useEffect_order App_init) (Num 250))) = 101"
proof -
  let ?mounted = "useEffect_order App_init"
  have ord: "order_st ?mounted = Num 3"
    by (simp add: order_st_useEffect_order App_init_def)
  have one: "map x (points_st (order_onChange ?mounted (Num 1))) = [50, 750]"
    using order_change_layout [of 1 ?mounted] ord by (simp add: upt_rec)
  have same: "order_onChange ?mounted (Num 3) = ?mounted"
    using order_change_layout [of 3 ?mounted] ord by blast
  have "length (points_st (order_onChange ?mounted (Num 3))) = nat 3 + 1"
    using order_change_layout [of 3 ?mounted] settled.first_effect by auto
  then have three: "length (points_st (order_onChange ?mounted (Num 3))) = 4"
    by simp
  have clamps: "safeOrder (Num (- 7)) = Num 1 \<and> safeOrder (Num 250) = Num 100"
    using order_change_layout [of "- 7" ?mounted] order_change_layout [of 250 ?mounted] by simp
  have high: "length (points_st (order_onChange ?mounted (Num 250))) = 101"
    using order_change_layout [of 250 ?mounted] ord by simp
  from ord one same three clamps high settled.first_effect show ?thesis by simp
qed

subsection \<open>C7: moving a point changes that point only\<close>

text \<open>
  Claim C7. \<open>handleMouseMove\<close> leaves the state as it is when no drag is active, when
  the position is not available, or when the dragged index is out of range. Otherwise
  it replaces exactly the point at the dragged index by the position clamped to
  [0,800] in \<open>x\<close> and [0,400] in \<open>y\<close>; the length and every other point stay.
\<close>

theorem movePoint_frame:
  "(draggingIndex_st s = None \<longrightarrow> handleMouseMove s transformed = s) \<and>
   (transformed = None \<longrightarrow> handleMouseMove s transformed = s) \<and>
   (\<forall>i. draggingIndex_st s = Some i \<and> length (points_st s) \<le> i \<longrightarrow>
        handleMouseMove s transformed = s) \<and>
   (\<forall>i p. draggingIndex_st s = Some i \<and> i < length (points_st s) \<and> transformed = Some p \<longrightarrow>
        handleMouseMove s transformed =
          s\<lparr>points_st := (points_st s)
              [i := \<lparr>x = max 0 (min 800 (x p)), y = max 0 (min 400 (y p))\<rparr>]\<rparr> \<and>
        length (points_st (handleMouseMove s transformed)) = length (points_st s) \<and>
        points_st (handleMouseMove s transformed) ! i =
          \<lparr>x = max 0 (min 800 (x p)), y = max 0 (min 400 (y p))\<rparr> \<and>
        0 \<le> x (points_st (handleMouseMove s transformed) ! i) \<and>
        x (points_st (handleMouseMove s transformed) ! i) \<le> 800 \<and>
        0 \<le> y (points_st (handleMouseMove s transformed) ! i) \<and>
        y (points_st (handleMouseMove s transformed) ! i) \<le> 400 \<and>
        (\<forall>j < length (points_st s). j \<noteq> i \<longrightarrow>
            points_st (handleMouseMove s transformed) ! j = points_st s ! j))"
proof (intro conjI allI impI)
  assume "draggingIndex_st s = None"
  then show "handleMouseMove s transformed = s"
    by (simp add: handleMouseMove_def)
next
  assume "transformed = None"
  then show "handleMouseMove s transformed = s"
    by (simp add: handleMouseMove_def split: option.splits)
next
  fix i
  assume "draggingIndex_st s = Some i \<and> length (points_st s) \<le> i"
  then show "handleMouseMove s transformed = s"
    by (simp add: handleMouseMove_def Let_def Array_map_replace split: option.splits)
next
  fix i p
  assume a: "draggingIndex_st s = Some i \<and> i < length (points_st s) \<and> transformed = Some p"
  let ?v = "\<lparr>x = max 0 (min 800 (x p)), y = max 0 (min 400 (y p))\<rparr>"
  from a have run: "handleMouseMove s transformed = s\<lparr>points_st := (points_st s)[i := ?v]\<rparr>"
    by (simp add: handleMouseMove_def Let_def Array_map_replace)
  show "handleMouseMove s transformed = s\<lparr>points_st := (points_st s)[i := ?v]\<rparr>"
    by (rule run)
  show "length (points_st (handleMouseMove s transformed)) = length (points_st s)"
    unfolding run by simp
  show "points_st (handleMouseMove s transformed) ! i = ?v"
    unfolding run using a by simp
  show "0 \<le> x (points_st (handleMouseMove s transformed) ! i)"
    unfolding run using a by simp
  show "x (points_st (handleMouseMove s transformed) ! i) \<le> 800"
    unfolding run using a by simp
  show "0 \<le> y (points_st (handleMouseMove s transformed) ! i)"
    unfolding run using a by simp
  show "y (points_st (handleMouseMove s transformed) ! i) \<le> 400"
    unfolding run using a by simp
  fix j
  assume "j < length (points_st s)" "j \<noteq> i"
  then show "points_st (handleMouseMove s transformed) ! j = points_st s ! j"
    unfolding run by simp
qed

theorem movePoint_frame_witness:
  "handleMouseMove
     \<lparr>t_st = 0, order_st = Num 2,
      points_st = [\<lparr>x = 50, y = 200\<rparr>, \<lparr>x = 400, y = 50\<rparr>, \<lparr>x = 750, y = 200\<rparr>],
      draggingIndex_st = Some 1\<rparr>
     (Some \<lparr>x = 900, y = - 20\<rparr>)
   = \<lparr>t_st = 0, order_st = Num 2,
      points_st = [\<lparr>x = 50, y = 200\<rparr>, \<lparr>x = 800, y = 0\<rparr>, \<lparr>x = 750, y = 200\<rparr>],
      draggingIndex_st = Some 1\<rparr> \<and>
   handleMouseMove
     \<lparr>t_st = 0, order_st = Num 2,
      points_st = [\<lparr>x = 50, y = 200\<rparr>, \<lparr>x = 400, y = 50\<rparr>, \<lparr>x = 750, y = 200\<rparr>],
      draggingIndex_st = None\<rparr>
     (Some \<lparr>x = 900, y = - 20\<rparr>)
   = \<lparr>t_st = 0, order_st = Num 2,
      points_st = [\<lparr>x = 50, y = 200\<rparr>, \<lparr>x = 400, y = 50\<rparr>, \<lparr>x = 750, y = 200\<rparr>],
      draggingIndex_st = None\<rparr> \<and>
   handleMouseMove
     \<lparr>t_st = 0, order_st = Num 2,
      points_st = [\<lparr>x = 50, y = 200\<rparr>, \<lparr>x = 400, y = 50\<rparr>, \<lparr>x = 750, y = 200\<rparr>],
      draggingIndex_st = Some 3\<rparr>
     (Some \<lparr>x = 900, y = - 20\<rparr>)
   = \<lparr>t_st = 0, order_st = Num 2,
      points_st = [\<lparr>x = 50, y = 200\<rparr>, \<lparr>x = 400, y = 50\<rparr>, \<lparr>x = 750, y = 200\<rparr>],
      draggingIndex_st = Some 3\<rparr>"
  using
    movePoint_frame
      [of "\<lparr>t_st = 0, order_st = Num 2,
            points_st = [\<lparr>x = 50, y = 200\<rparr>, \<lparr>x = 400, y = 50\<rparr>, \<lparr>x = 750, y = 200\<rparr>],
            draggingIndex_st = Some 1\<rparr>" "Some \<lparr>x = 900, y = - 20\<rparr>"]
    movePoint_frame
      [of "\<lparr>t_st = 0, order_st = Num 2,
            points_st = [\<lparr>x = 50, y = 200\<rparr>, \<lparr>x = 400, y = 50\<rparr>, \<lparr>x = 750, y = 200\<rparr>],
            draggingIndex_st = None\<rparr>" "Some \<lparr>x = 900, y = - 20\<rparr>"]
    movePoint_frame
      [of "\<lparr>t_st = 0, order_st = Num 2,
            points_st = [\<lparr>x = 50, y = 200\<rparr>, \<lparr>x = 400, y = 50\<rparr>, \<lparr>x = 750, y = 200\<rparr>],
            draggingIndex_st = Some 3\<rparr>" "Some \<lparr>x = 900, y = - 20\<rparr>"]
  by simp

subsection \<open>C8: the sampled curve does not depend on the parameter\<close>

text \<open>
  Claim C8. \<open>curvePoints\<close> is a function of the control points alone: two states with
  the same control points have the same sampled curve, and changing \<open>t\<close> from any
  \<open>t1\<close> to any \<open>t2\<close> leaves it as it is.
\<close>

theorem sample_independent_of_t:
  "(points_st s1 = points_st s2 \<longrightarrow> curvePoints s1 = curvePoints s2) \<and>
   curvePoints (s\<lparr>t_st := t1\<rparr>) = curvePoints (s\<lparr>t_st := t2\<rparr>)"
  by (simp add: curvePoints_def)

theorem sample_independent_of_t_witness:
  "curvePoints \<lparr>t_st = 0, order_st = Num 1,
                points_st = [\<lparr>x = 0, y = 0\<rparr>, \<lparr>x = 99, y = 198\<rparr>], draggingIndex_st = None\<rparr>
   = curvePoints \<lparr>t_st = 1, order_st = Num 1,
                points_st = [\<lparr>x = 0, y = 0\<rparr>, \<lparr>x = 99, y = 198\<rparr>], draggingIndex_st = Some 1\<rparr>"
  using sample_independent_of_t
    [of "\<lparr>t_st = 0, order_st = Num 1,
          points_st = [\<lparr>x = 0, y = 0\<rparr>, \<lparr>x = 99, y = 198\<rparr>], draggingIndex_st = None\<rparr>"
        "\<lparr>t_st = 1, order_st = Num 1,
          points_st = [\<lparr>x = 0, y = 0\<rparr>, \<lparr>x = 99, y = 198\<rparr>], draggingIndex_st = Some 1\<rparr>"]
  by simp

subsection \<open>C9: malformed and out-of-range orders\<close>

text \<open>
  Claim C9 asks that every malformed value, \<^verbatim>\<open>NaN\<close> included, is clamped into
  [1,100] before the layout is regenerated. \<^verbatim>\<open>NaN\<close> is not clamped:
  \<open>safeOrder NaN\<close> is \<^verbatim>\<open>NaN\<close>, and the two points a user has dragged to the corners
  stay where they are instead of being laid out again.
\<close>

theorem order_NaN_counterexample:
  "safeOrder NaN = NaN \<and>
   points_st (useEffect_order (setOrder
     \<lparr>t_st = 0, order_st = Num 1,
      points_st = [\<lparr>x = 0, y = 0\<rparr>, \<lparr>x = 800, y = 400\<rparr>],
      draggingIndex_st = None\<rparr> NaN))
   = [\<lparr>x = 0, y = 0\<rparr>, \<lparr>x = 800, y = 400\<rparr>]"
  by (simp add: safeOrder_NaN useEffect_order_NaN setOrder_def)

text \<open>
  Claim C9, amended. An integer order is clamped to some \<open>c\<close> in [1,100] and the
  sequence regenerated with \<open>c + 1\<close> points, between 2 and 101. \<^verbatim>\<open>NaN\<close> is not
  clamped; the length guard of the effect ignores it and the control points stay as
  they were. After any entry in a state the application reaches, the sequence has
  between 2 and 101 points.
\<close>

theorem order_input_handling:
  "(\<forall>n. newOrder = Num n \<longrightarrow>
      (\<exists>c. safeOrder newOrder = Num c \<and> 1 \<le> c \<and> c \<le> 100 \<and>
           length (points_st (useEffect_order (setOrder s newOrder))) = nat c + 1) \<and>
      2 \<le> length (points_st (useEffect_order (setOrder s newOrder))) \<and>
      length (points_st (useEffect_order (setOrder s newOrder))) \<le> 101) \<and>
   (newOrder = NaN \<longrightarrow>
      safeOrder newOrder = NaN \<and>
      points_st (useEffect_order (setOrder s newOrder)) = points_st s) \<and>
   (reachable s \<longrightarrow>
      reachable (useEffect_order (setOrder s newOrder)) \<and>
      2 \<le> length (points_st (useEffect_order (setOrder s newOrder))) \<and>
      length (points_st (useEffect_order (setOrder s newOrder))) \<le> 101)"
proof -
  have num: "(\<exists>c. safeOrder (Num n) = Num c \<and> 1 \<le> c \<and> c \<le> 100 \<and>
           length (points_st (useEffect_order (setOrder s (Num n)))) = nat c + 1) \<and>
      2 \<le> length (points_st (useEffect_order (setOrder s (Num n)))) \<and>
      length (points_st (useEffect_order (setOrder s (Num n)))) \<le> 101" for n
  proof -
    have run: "length (points_st (useEffect_order (setOrder s (Num n))))
                 = nat (max 1 (min 100 n)) + 1"
      using useEffect_order_Num [of "setOrder s (Num n)" n] by (simp add: setOrder_def)
    have "\<exists>c. safeOrder (Num n) = Num c \<and> 1 \<le> c \<and> c \<le> 100 \<and>
           length (points_st (useEffect_order (setOrder s (Num n)))) = nat c + 1"
      using run by (intro exI [of _ "max 1 (min 100 n)"]) (simp add: safeOrder_Num)
    moreover have "2 \<le> nat (max 1 (min 100 n)) + 1" "nat (max 1 (min 100 n)) + 1 \<le> 101"
      by linarith+
    ultimately show ?thesis using run by simp
  qed
  have nan: "safeOrder NaN = NaN \<and> points_st (useEffect_order (setOrder s NaN)) = points_st s"
    using useEffect_order_NaN [of "setOrder s NaN"] by (simp add: safeOrder_NaN setOrder_def)
  have inv: "reachable s \<longrightarrow>
      reachable (useEffect_order (setOrder s newOrder)) \<and>
      2 \<le> length (points_st (useEffect_order (setOrder s newOrder))) \<and>
      length (points_st (useEffect_order (setOrder s newOrder))) \<le> 101"
  proof
    assume "reachable s"
    then have "reachable (useEffect_order (setOrder s newOrder))"
      by (intro reachable.effect reachable.order_field)
    then show "reachable (useEffect_order (setOrder s newOrder)) \<and>
      2 \<le> length (points_st (useEffect_order (setOrder s newOrder))) \<and>
      length (points_st (useEffect_order (setOrder s newOrder))) \<le> 101"
      using reachable_points_length by blast
  qed
  show ?thesis
  proof (cases newOrder)
    case NaN
    with nan inv show ?thesis by simp
  next
    case (Num n)
    with num [of n] inv show ?thesis by simp
  qed
qed

theorem order_input_handling_witness:
  "safeOrder (Num 250) = Num 100 \<and>
   length (points_st (useEffect_order (setOrder App_init (Num 250)))) = 101 \<and>
   safeOrder (Num (- 4)) = Num 1 \<and>
   length (points_st (useEffect_order (setOrder App_init (Num (- 4))))) = 2 \<and>
   points_st (useEffect_order (setOrder
     \<lparr>t_st = 0, order_st = Num 1,
      points_st = [\<lparr>x = 0, y = 0\<rparr>, \<lparr>x = 800, y = 400\<rparr>],
      draggingIndex_st = None\<rparr> NaN))
   = [\<lparr>x = 0, y = 0\<rparr>, \<lparr>x = 800, y = 400\<rparr>] \<and>
   reachable (useEffect_order App_init) \<and>
   reachable (useEffect_order (setOrder (useEffect_order App_init) NaN)) \<and>
   2 \<le> length (points_st (useEffect_order (setOrder (useEffect_order App_init) NaN))) \<and>
   length (points_st (useEffect_order (setOrder (useEffect_order App_init) NaN))) \<le> 101"
proof -
  let ?dragged = "\<lparr>t_st = 0, order_st = Num 1,
                   points_st = [\<lparr>x = 0, y = 0\<rparr>, \<lparr>x = 800, y = 400\<rparr>],
                   draggingIndex_st = None\<rparr>"
  have high: "safeOrder (Num 250) = Num 100 \<and>
      length (points_st (useEffect_order (setOrder App_init (Num 250)))) = 101"
    using order_input_handling [of "Num 250" App_init] by (simp add: safeOrder_Num)
  have low: "safeOrder (Num (- 4)) = Num 1 \<and>
      length (points_st (useEffect_order (setOrder App_init (Num (- 4))))) = 2"
    using order_input_handling [of "Num (- 4)" App_init] by (simp add: safeOrder_Num)
  have kept: "points_st (useEffect_order (setOrder ?dragged NaN))
      = [\<lparr>x = 0, y = 0\<rparr>, \<lparr>x = 800, y = 400\<rparr>]"
    using order_input_handling [of NaN ?dragged] by simp
  have after: "reachable (useEffect_order (setOrder (useEffect_order App_init) NaN)) \<and>
      2 \<le> length (points_st (useEffect_order (setOrder (useEffect_order App_init) NaN))) \<and>
      length (points_st (useEffect_order (setOrder (useEffect_order App_init) NaN))) \<le> 101"
    using order_input_handling [of NaN "useEffect_order App_init"] reachable.mount by blast
  from high low kept reachable.mount after show ?thesis by blast
qed

subsection \<open>C10: termination and recursion depth\<close>

text \<open>
  Claim C10 asks that the number of construction levels equals the order,
  \<open>length points - 1\<close>. Two control points (order 1) give two levels.
\<close>

theorem levels_count_is_not_order_counterexample:
  "length (intermediatePoints
      \<lparr>t_st = 1 / 2, order_st = Num 1,
       points_st = [\<lparr>x = 0, y = 0\<rparr>, \<lparr>x = 10, y = 4\<rparr>], draggingIndex_st = None\<rparr>) = 2 \<and>
   length [\<lparr>x = 0, y = 0\<rparr>, \<lparr>x = 10, y = 4\<rparr>] - 1 = (1::nat)"
  by (simp add: intermediatePoints_split while_Nil_more while_unfold_done)

text \<open>
  Claim C10, amended. On every non-empty sequence \<open>calculateBezierPoint\<close> returns a
  point; each recursive call receives a sequence exactly one point shorter; the base
  case is reached at recursion depth \<open>length points - 1\<close>, the order; and the number of
  construction levels is the order plus one.
\<close>

theorem evaluate_terminates:
  "controlPoints \<noteq> [] \<Longrightarrow>
     (\<exists>p. calculateBezierPoint t controlPoints = Some p \<and>
          calculateBezierPoint_depth t controlPoints 0 = Some (p, length controlPoints - 1)) \<and>
     (length controlPoints \<noteq> 1 \<longrightarrow>
        length (calculateBezierPoint_newPoints t controlPoints) = length controlPoints - 1 \<and>
        length controlPoints = length (calculateBezierPoint_newPoints t controlPoints) + 1) \<and>
     length (intermediatePoints (s\<lparr>points_st := controlPoints\<rparr>)) = (length controlPoints - 1) + 1"
proof -
  assume ne: "controlPoints \<noteq> []"
  then obtain n where n: "length controlPoints = Suc n"
    by (cases controlPoints) auto
  from calculateBezierPoint_returns [OF n, of t 0] n
  have "\<exists>p. calculateBezierPoint t controlPoints = Some p \<and>
          calculateBezierPoint_depth t controlPoints 0 = Some (p, length controlPoints - 1)"
    by simp
  moreover have "length (intermediatePoints (s\<lparr>points_st := controlPoints\<rparr>))
                   = (length controlPoints - 1) + 1"
    by (simp add: intermediatePoints_split length_while_Nil)
  ultimately show ?thesis using n by simp
qed

theorem evaluate_terminates_witness:
  "[\<lparr>x = 0, y = 0\<rparr>, \<lparr>x = 10, y = 4\<rparr>, \<lparr>x = 20, y = 0\<rparr>] \<noteq> [] \<and>
   calculateBezierPoint (1 / 2) [\<lparr>x = 0, y = 0\<rparr>, \<lparr>x = 10, y = 4\<rparr>, \<lparr>x = 20, y = 0\<rparr>]
     = Some \<lparr>x = 10, y = 2\<rparr> \<and>
   calculateBezierPoint_depth (1 / 2) [\<lparr>x = 0, y = 0\<rparr>, \<lparr>x = 10, y = 4\<rparr>, \<lparr>x = 20, y = 0\<rparr>] 0
     = Some (\<lparr>x = 10, y = 2\<rparr>, 2) \<and>
   length (intermediatePoints
     (App_init\<lparr>points_st := [\<lparr>x = 0, y = 0\<rparr>, \<lparr>x = 10, y = 4\<rparr>, \<lparr>x = 20, y = 0\<rparr>]\<rparr>)) = 3"
  using evaluate_terminates
    [of "[\<lparr>x = 0, y = 0\<rparr>, \<lparr>x = 10, y = 4\<rparr>, \<lparr>x = 20, y = 0\<rparr>]" "1 / 2" App_init]
  by (simp add: calculateBezierPoint_more calculateBezierPoint_single
      calculateBezierPoint_newPoints_map upt_rec)

end
